theory Spec2Isabelle
  imports Main "HOL-Library.Word" "HOL-Library.Sublist"
begin

section \<open>Errors\<close>

text \<open>
  Every exception the modelled code can raise is a value of \<open>error\<close>.
  \<open>InvalidInputRoot\<close> is the \<^verbatim>\<open>ValueError\<close> raised by \<^verbatim>\<open>batch_remove_background\<close>
  when the input directory does not exist; \<open>UnpackError\<close> is the \<^verbatim>\<open>ValueError\<close> of a
  failed tuple unpacking, \<open>RelativeToError\<close> the one of \<^verbatim>\<open>relative_to\<close> and
  \<open>InvalidPattern\<close> the one of a glob pattern with \<open>**\<close> inside a component; the others
  are the exceptions of the same name of Python, NumPy and Pillow.
\<close>

datatype error =
    InvalidInputRoot
  | UnpackError
  | IndexError
  | FileNotFoundError
  | IsADirectoryError
  | NotADirectoryError
  | FileExistsError
  | UnidentifiedImageError
  | RelativeToError
  | InvalidPattern

section \<open>The transform engine\<close>

subsection \<open>Pixels and the classification rule\<close>

text \<open>
  A channel is a NumPy \<^verbatim>\<open>uint8\<close>; a pixel is the sequence of its channels.
  The threshold and the tolerance are Python integers (unbounded).
\<close>

type_synonym u8 = "8 word"
type_synonym pixel = "u8 list"

record BackgroundRemover =
  threshold :: int
  tolerance :: int

text \<open>
  \<^verbatim>\<open>BackgroundRemover.is_black_background\<close>. A pixel of four channels is unpacked
  into \<open>r, g, b, a\<close>; any other pixel is unpacked into \<open>r, g, b\<close>, which raises when it
  does not have exactly three channels. A \<^verbatim>\<open>uint8\<close> is compared with the Python
  integer threshold by value.
\<close>

fun is_black_background :: "BackgroundRemover \<Rightarrow> pixel \<Rightarrow> error + bool" where
  "is_black_background self [r, g, b, a] =
     (if a = 0 then Inr True
      else Inr (uint r \<le> threshold self \<and> uint g \<le> threshold self \<and> uint b \<le> threshold self))"
| "is_black_background self [r, g, b] =
     Inr (uint r \<le> threshold self \<and> uint g \<le> threshold self \<and> uint b \<le> threshold self)"
| "is_black_background self pixel = Inl UnpackError"

subsection \<open>Image buffers\<close>

text \<open>
  A decoded image: its mode, its size and its rows of pixels (the array
  \<^verbatim>\<open>np.array(img)\<close> has shape \<open>(height, width, channels)\<close>).
\<close>

datatype mode = RGB | RGBA

fun channels :: "mode \<Rightarrow> nat" where
  "channels RGB = 3"
| "channels RGBA = 4"

record image =
  mode :: mode
  height :: nat
  width :: nat
  pixels :: "pixel list list"

definition wf_image :: "image \<Rightarrow> bool" where
  "wf_image img \<longleftrightarrow>
     length (pixels img) = height img \<and>
     list_all (\<lambda>row. length row = width img \<and>
                     list_all (\<lambda>p. length p = channels (mode img)) row) (pixels img)"

text \<open>
  Modelled from the spec: Pillow's \<^verbatim>\<open>Image.convert('RGBA')\<close> on an image without a
  transparency channel appends a fully opaque transparency value (255) to every pixel.
\<close>

definition convert_RGBA :: "image \<Rightarrow> image" where
  "convert_RGBA img = img\<lparr>mode := RGBA, pixels := map (map (\<lambda>p. p @ [255])) (pixels img)\<rparr>"

text \<open>Indexing a two-dimensional array; NumPy raises \<^verbatim>\<open>IndexError\<close> out of range.\<close>

definition get2 :: "'a list list \<Rightarrow> nat \<Rightarrow> nat \<Rightarrow> error + 'a" where
  "get2 arr y x =
     (if y < length arr \<and> x < length (arr ! y) then Inr (arr ! y ! x) else Inl IndexError)"

definition set2 :: "'a list list \<Rightarrow> nat \<Rightarrow> nat \<Rightarrow> 'a \<Rightarrow> error + 'a list list" where
  "set2 arr y x v =
     (if y < length arr \<and> x < length (arr ! y) then Inr (arr[y := (arr ! y)[x := v]])
      else Inl IndexError)"

text \<open>
  The two nested loops of \<^verbatim>\<open>remove_black_background\<close>:
  \<^verbatim>\<open>for y in range(data.shape[0]): for x in range(data.shape[1]): ...\<close>
  The pixel is read from \<open>data\<close>, which the loops never change; the transparency
  values are written to the copy \<open>alpha_channel\<close>.
\<close>

fun loop_x :: "BackgroundRemover \<Rightarrow> pixel list list \<Rightarrow> u8 list list \<Rightarrow> nat \<Rightarrow> nat list
    \<Rightarrow> error + u8 list list" where
  "loop_x self data alpha_channel y [] = Inr alpha_channel"
| "loop_x self data alpha_channel y (x # xs) =
     (case get2 data y x of
        Inl e \<Rightarrow> Inl e
      | Inr pixel \<Rightarrow>
          (case is_black_background self pixel of
             Inl e \<Rightarrow> Inl e
           | Inr bg \<Rightarrow>
               if bg then
                 (case set2 alpha_channel y x 0 of
                    Inl e \<Rightarrow> Inl e
                  | Inr alpha_channel' \<Rightarrow> loop_x self data alpha_channel' y xs)
               else loop_x self data alpha_channel y xs))"

fun loop_y :: "BackgroundRemover \<Rightarrow> pixel list list \<Rightarrow> u8 list list \<Rightarrow> nat \<Rightarrow> nat list
    \<Rightarrow> error + u8 list list" where
  "loop_y self data alpha_channel w [] = Inr alpha_channel"
| "loop_y self data alpha_channel w (y # ys) =
     (case loop_x self data alpha_channel y [0..<w] of
        Inl e \<Rightarrow> Inl e
      | Inr alpha_channel' \<Rightarrow> loop_y self data alpha_channel' w ys)"

text \<open>
  The slices \<^verbatim>\<open>data[:, :, 3].copy()\<close> and \<^verbatim>\<open>data[:, :, 3] = alpha_channel\<close>
  on an array of shape \<open>(height, width, 4)\<close>.
\<close>

definition get_channel3 :: "pixel list list \<Rightarrow> u8 list list" where
  "get_channel3 data = map (map (\<lambda>p. p ! 3)) data"

definition set_channel3 :: "pixel list list \<Rightarrow> u8 list list \<Rightarrow> pixel list list" where
  "set_channel3 data alpha_channel =
     map (\<lambda>(row, arow). map (\<lambda>(p, a). p[3 := a]) (zip row arow)) (zip data alpha_channel)"

text \<open>
  The in-memory part of \<^verbatim>\<open>remove_black_background\<close>, from the mode check to
  \<^verbatim>\<open>Image.fromarray(data, 'RGBA')\<close>: the transform of one image buffer.
\<close>

definition transform :: "BackgroundRemover \<Rightarrow> image \<Rightarrow> error + image" where
  "transform self img0 =
     (let img = (if mode img0 \<noteq> RGBA then convert_RGBA img0 else img0);
          data = pixels img;
          alpha_channel = get_channel3 data
      in case loop_y self data alpha_channel (width img) [0..<height img] of
           Inl e \<Rightarrow> Inl e
         | Inr alpha_channel' \<Rightarrow> Inr (img\<lparr>pixels := set_channel3 data alpha_channel'\<rparr>))"

text \<open>The input buffer after the mode check: upgraded to four channels when it has three.\<close>

definition upgraded :: "image \<Rightarrow> image" where
  "upgraded img = (if mode img \<noteq> RGBA then convert_RGBA img else img)"

text \<open>A concrete remover (the defaults of the constructor) and a concrete 2x1 RGB image.\<close>

definition example_remover :: BackgroundRemover where
  "example_remover = \<lparr>threshold = 30, tolerance = 10\<rparr>"

definition example_image :: image where
  "example_image = \<lparr>mode = RGB, height = 1, width = 2, pixels = [[[0, 0, 0], [31, 0, 0]]]\<rparr>"

section \<open>The batch orchestrator\<close>

subsection \<open>Strings\<close>

text \<open>\<^verbatim>\<open>str.upper\<close> and \<^verbatim>\<open>str.lower\<close>, on ASCII letters.\<close>

definition upper_char :: "char \<Rightarrow> char" where
  "upper_char c =
     (case map_of (zip ''abcdefghijklmnopqrstuvwxyz'' ''ABCDEFGHIJKLMNOPQRSTUVWXYZ'') c of
        None \<Rightarrow> c | Some d \<Rightarrow> d)"

definition lower_char :: "char \<Rightarrow> char" where
  "lower_char c =
     (case map_of (zip ''ABCDEFGHIJKLMNOPQRSTUVWXYZ'' ''abcdefghijklmnopqrstuvwxyz'') c of
        None \<Rightarrow> c | Some d \<Rightarrow> d)"

definition upper :: "string \<Rightarrow> string" where
  "upper s = map upper_char s"

definition lower :: "string \<Rightarrow> string" where
  "lower s = map lower_char s"

text \<open>\<^verbatim>\<open>s.rsplit('.', 1)[0]\<close>: the part of \<open>s\<close> before its last dot (all of \<open>s\<close> without a dot).\<close>

definition rsplit_dot :: "string \<Rightarrow> string" where
  "rsplit_dot s =
     (if CHR ''.'' \<in> set s then rev (tl (dropWhile (\<lambda>c. c \<noteq> CHR ''.'') (rev s))) else s)"

text \<open>
  Matching one name against one component of a glob pattern, case-sensitively as on a
  POSIX path: \<open>*\<close> matches any run of characters, \<open>?\<close> any one character, every other
  character itself. A bracket is taken as itself here, where Python reads a character
  class; which names a search finds is therefore stated below for extensions without
  metacharacters only.
\<close>

fun fnmatch :: "string \<Rightarrow> string \<Rightarrow> bool" where
  "fnmatch name [] = (name = [])"
| "fnmatch name (c # pat) =
     (if c = CHR ''*'' then
        (fnmatch name pat \<or> (case name of [] \<Rightarrow> False | d # name' \<Rightarrow> fnmatch name' (c # pat)))
      else
        (case name of
           [] \<Rightarrow> False
         | d # name' \<Rightarrow> (c = CHR ''?'' \<or> d = c) \<and> fnmatch name' pat))"

subsection \<open>The file system\<close>

text \<open>
  A path is the list of its components from the root of the file system. What a file
  holds is either an image that Pillow decodes or something else. The file system is the
  list of its entries, in the order in which a directory scan lists them; the root itself
  is not an entry and is a directory.
\<close>

type_synonym path = "string list"

datatype content = Image_data image | Other_data

datatype node = Dir | File content

type_synonym fs = "(path \<times> node) list"

definition lookup :: "fs \<Rightarrow> path \<Rightarrow> node option" where
  "lookup fs p = (if p = [] then Some Dir else map_of fs p)"

definition exists_path :: "fs \<Rightarrow> path \<Rightarrow> bool" where
  "exists_path fs p \<longleftrightarrow> lookup fs p \<noteq> None"

definition is_dir :: "fs \<Rightarrow> path \<Rightarrow> bool" where
  "is_dir fs p \<longleftrightarrow> lookup fs p = Some Dir"

definition parent :: "path \<Rightarrow> path" where
  "parent p = butlast p"

definition name :: "path \<Rightarrow> string" where
  "name p = (if p = [] then [] else last p)"

text \<open>
  \<^verbatim>\<open>Path.mkdir(parents=True, exist_ok=True)\<close>: every missing directory on the way is
  created; a file on the way makes it fail. \<open>pre\<close> is the part of the path already
  passed.
\<close>

fun mkdir_from :: "fs \<Rightarrow> path \<Rightarrow> path \<Rightarrow> error + fs" where
  "mkdir_from fs pre [] = Inr fs"
| "mkdir_from fs pre (c # cs) =
     (case lookup fs (pre @ [c]) of
        None \<Rightarrow> mkdir_from (fs @ [(pre @ [c], Dir)]) (pre @ [c]) cs
      | Some Dir \<Rightarrow> mkdir_from fs (pre @ [c]) cs
      | Some (File x) \<Rightarrow> Inl (if cs = [] then FileExistsError else NotADirectoryError))"

definition mkdir :: "fs \<Rightarrow> path \<Rightarrow> error + fs" where
  "mkdir fs p = mkdir_from fs [] p"

text \<open>Two stars next to each other somewhere in a pattern.\<close>

fun has_double_star :: "string \<Rightarrow> bool" where
  "has_double_star (a # b # cs) = (a = CHR ''*'' \<and> b = CHR ''*'' \<or> has_double_star (b # cs))"
| "has_double_star cs = False"

text \<open>
  What the pattern \<open>**\<close> selects: the directory itself and every directory below it.
\<close>

definition directories :: "fs \<Rightarrow> path \<Rightarrow> path list" where
  "directories fs dir =
     (if is_dir fs dir
      then dir # filter (\<lambda>p. strict_prefix dir p \<and> is_dir fs p) (map fst fs)
      else [])"

text \<open>
  \<^verbatim>\<open>Path.glob(pattern)\<close> and \<^verbatim>\<open>Path.rglob(pattern)\<close> for a pattern of one component
  (the patterns of the search below are \<open>*\<close> followed by an extension; an extension
  with a path separator is not modelled). The pattern \<open>**\<close> selects directories; any
  other pattern with \<open>**\<close> in it is refused with a \<^verbatim>\<open>ValueError\<close>, whatever the
  directory; otherwise the result is the entries (files and directories) directly in, or
  anywhere below, the directory, whose name matches the pattern. On a path that is not a
  directory the result is empty.
\<close>

definition glob :: "fs \<Rightarrow> path \<Rightarrow> string \<Rightarrow> error + path list" where
  "glob fs dir pat =
     (if pat = ''**'' then Inr (directories fs dir)
      else if has_double_star pat then Inl InvalidPattern
      else if is_dir fs dir
      then Inr (filter (\<lambda>p. p \<noteq> [] \<and> parent p = dir \<and> fnmatch (name p) pat) (map fst fs))
      else Inr [])"

definition rglob :: "fs \<Rightarrow> path \<Rightarrow> string \<Rightarrow> error + path list" where
  "rglob fs dir pat =
     (if pat = ''**'' then Inr (directories fs dir)
      else if has_double_star pat then Inl InvalidPattern
      else if is_dir fs dir
      then Inr (filter (\<lambda>p. strict_prefix dir p \<and> fnmatch (name p) pat) (map fst fs))
      else Inr [])"

text \<open>\<^verbatim>\<open>PurePath.relative_to\<close>.\<close>

definition relative_to :: "path \<Rightarrow> path \<Rightarrow> error + path" where
  "relative_to p other =
     (if prefix other p then Inr (drop (length other) p) else Inl RelativeToError)"

text \<open>
  \<^verbatim>\<open>Image.open\<close> followed by decoding, and \<^verbatim>\<open>Image.save\<close>. Writing creates the file
  or replaces what it held; the directory it is in must exist.
\<close>

definition open_image :: "fs \<Rightarrow> path \<Rightarrow> error + image" where
  "open_image fs p =
     (case lookup fs p of
        None \<Rightarrow> Inl FileNotFoundError
      | Some Dir \<Rightarrow> Inl IsADirectoryError
      | Some (File Other_data) \<Rightarrow> Inl UnidentifiedImageError
      | Some (File (Image_data img)) \<Rightarrow> Inr img)"

definition save_image :: "fs \<Rightarrow> path \<Rightarrow> image \<Rightarrow> error + fs" where
  "save_image fs p img =
     (case lookup fs p of
        Some Dir \<Rightarrow> Inl IsADirectoryError
      | Some (File x) \<Rightarrow>
          Inr (map (\<lambda>(q, n). if q = p then (q, File (Image_data img)) else (q, n)) fs)
      | None \<Rightarrow>
          (case lookup fs (parent p) of
             None \<Rightarrow> Inl FileNotFoundError
           | Some (File x) \<Rightarrow> Inl NotADirectoryError
           | Some Dir \<Rightarrow> Inr (fs @ [(p, File (Image_data img))])))"

subsection \<open>Processing one file\<close>

text \<open>
  The path the result is written to: a path that ends, in lower case, with \<open>.jpg\<close> or
  \<open>.jpeg\<close> gets the extension \<open>.png\<close> instead.
\<close>

definition png_path :: "path \<Rightarrow> path" where
  "png_path output_path =
     (if suffix ''.jpg'' (lower (name output_path)) \<or> suffix ''.jpeg'' (lower (name output_path))
      then parent output_path @ [rsplit_dot (name output_path) @ ''.png'']
      else output_path)"

text \<open>The body of the \<^verbatim>\<open>try\<close> block of \<^verbatim>\<open>remove_black_background\<close>.\<close>

definition remove_black_background_try ::
    "BackgroundRemover \<Rightarrow> fs \<Rightarrow> path \<Rightarrow> path option \<Rightarrow> int \<Rightarrow> error + fs" where
  "remove_black_background_try self fs image_path output_path quality =
     (case open_image fs image_path of
        Inl e \<Rightarrow> Inl e
      | Inr img \<Rightarrow>
          (case transform self img of
             Inl e \<Rightarrow> Inl e
           | Inr result_img \<Rightarrow>
               (let output_path' = (case output_path of None \<Rightarrow> image_path | Some p \<Rightarrow> p)
                in save_image fs (png_path output_path') result_img)))"

text \<open>
  \<^verbatim>\<open>remove_black_background\<close>: \<^verbatim>\<open>True\<close> when the block ends, \<^verbatim>\<open>False\<close> when it
  raises (\<^verbatim>\<open>except Exception\<close>).
\<close>

definition remove_black_background ::
    "BackgroundRemover \<Rightarrow> fs \<Rightarrow> path \<Rightarrow> path option \<Rightarrow> int \<Rightarrow> bool \<times> fs" where
  "remove_black_background self fs image_path output_path quality =
     (case remove_black_background_try self fs image_path output_path quality of
        Inl e \<Rightarrow> (False, fs)
      | Inr fs' \<Rightarrow> (True, fs'))"

subsection \<open>The batch\<close>

record stats =
  total :: nat
  success :: nat
  failed :: nat

text \<open>
  The search for the image files: for every extension, the pattern \<open>*ext\<close> and the
  pattern \<open>*EXT\<close> with the extension in upper case, one after the other. It is outside
  every \<^verbatim>\<open>try\<close>: a pattern that is refused ends \<^verbatim>\<open>batch_remove_background\<close>.
\<close>

fun extend_all ::
    "(string \<Rightarrow> error + path list) \<Rightarrow> string list \<Rightarrow> path list \<Rightarrow> error + path list" where
  "extend_all g [] image_files = Inr image_files"
| "extend_all g (ext # exts) image_files =
     (case g (CHR ''*'' # ext) of
        Inl e \<Rightarrow> Inl e
      | Inr found \<Rightarrow>
          (case g (CHR ''*'' # upper ext) of
             Inl e \<Rightarrow> Inl e
           | Inr found_upper \<Rightarrow> extend_all g exts (image_files @ found @ found_upper)))"

definition discover :: "fs \<Rightarrow> path \<Rightarrow> bool \<Rightarrow> string list \<Rightarrow> error + path list" where
  "discover fs input_path recursive file_extensions =
     (if recursive then extend_all (rglob fs input_path) file_extensions []
      else extend_all (glob fs input_path) file_extensions [])"

text \<open>The body of the \<^verbatim>\<open>try\<close> block inside the loop over the image files.\<close>

definition process_file ::
    "BackgroundRemover \<Rightarrow> fs \<Rightarrow> path \<Rightarrow> path \<Rightarrow> int \<Rightarrow> path \<Rightarrow> error + bool \<times> fs" where
  "process_file self fs input_path output_path quality image_file =
     (case relative_to image_file input_path of
        Inl e \<Rightarrow> Inl e
      | Inr relative_path \<Rightarrow>
          (let output_file = output_path @ relative_path
           in case mkdir fs (parent output_file) of
                Inl e \<Rightarrow> Inl e
              | Inr fs' \<Rightarrow>
                  Inr (remove_black_background self fs' image_file (Some output_file) quality)))"

text \<open>One turn of the loop: exactly one of the two counters goes up.\<close>

definition batch_step ::
    "BackgroundRemover \<Rightarrow> path \<Rightarrow> path \<Rightarrow> int \<Rightarrow> path \<Rightarrow> stats \<times> fs \<Rightarrow> stats \<times> fs" where
  "batch_step self input_path output_path quality image_file s =
     (case s of (st, fs) \<Rightarrow>
        (case process_file self fs input_path output_path quality image_file of
           Inl e \<Rightarrow> (st\<lparr>failed := failed st + 1\<rparr>, fs)
         | Inr (ok, fs') \<Rightarrow>
             (if ok then (st\<lparr>success := success st + 1\<rparr>, fs')
              else (st\<lparr>failed := failed st + 1\<rparr>, fs'))))"

fun batch_loop ::
    "BackgroundRemover \<Rightarrow> path \<Rightarrow> path \<Rightarrow> int \<Rightarrow> path list \<Rightarrow> stats \<times> fs \<Rightarrow> stats \<times> fs" where
  "batch_loop self input_path output_path quality [] s = s"
| "batch_loop self input_path output_path quality (image_file # image_files) s =
     batch_loop self input_path output_path quality image_files
       (batch_step self input_path output_path quality image_file s)"

text \<open>
  \<^verbatim>\<open>batch_remove_background\<close>. The result is the exception that leaves the function or
  the statistics it returns, together with the file system it leaves behind.
\<close>

definition batch_remove_background ::
    "BackgroundRemover \<Rightarrow> fs \<Rightarrow> path \<Rightarrow> path option \<Rightarrow> bool \<Rightarrow> string list \<Rightarrow> int
      \<Rightarrow> (error + stats) \<times> fs" where
  "batch_remove_background self fs input_dir output_dir recursive file_extensions quality =
     (let input_path = input_dir in
      if \<not> exists_path fs input_path then (Inl InvalidInputRoot, fs)
      else
        (let output_path = (case output_dir of None \<Rightarrow> input_path @ [''processed''] | Some d \<Rightarrow> d)
         in case mkdir fs output_path of
              Inl e \<Rightarrow> (Inl e, fs)
            | Inr fs1 \<Rightarrow>
                (case discover fs1 input_path recursive file_extensions of
                   Inl e \<Rightarrow> (Inl e, fs1)
                 | Inr image_files \<Rightarrow>
                     if image_files = [] then (Inr \<lparr>total = 0, success = 0, failed = 0\<rparr>, fs1)
                     else
                       (case batch_loop self input_path output_path quality image_files
                               (\<lparr>total = length image_files, success = 0, failed = 0\<rparr>, fs1) of
                          (st, fs') \<Rightarrow> (Inr st, fs')))))"

text \<open>A small file system: three files for the default extensions, one of them not an image.\<close>

definition example_fs :: fs where
  "example_fs =
     [([''in''], Dir),
      ([''in'', ''a.jpg''], File (Image_data example_image)),
      ([''in'', ''b.JPG''], File Other_data),
      ([''in'', ''c.Jpg''], File (Image_data example_image)),
      ([''in'', ''sub''], Dir),
      ([''in'', ''sub'', ''d.jpeg''], File (Image_data example_image)),
      ([''in'', ''notes.txt''], File Other_data)]"

subsection \<open>The batch as the specification describes it\<close>



subsection \<open>Notions used in the statements\<close>

text \<open>The output directory: the one given, or \<open>processed\<close> in the input directory.\<close>

definition output_root :: "path \<Rightarrow> path option \<Rightarrow> path" where
  "output_root input_dir output_dir =
     (case output_dir of None \<Rightarrow> input_dir @ [''processed''] | Some d \<Rightarrow> d)"

text \<open>
  An extension without a glob metacharacter and without a path separator; the pattern
  \<open>*ext\<close> is then one component that ends with the extension itself.
\<close>

definition literal :: "string \<Rightarrow> bool" where
  "literal s \<longleftrightarrow> list_all (\<lambda>c. c \<notin> set ''*?[/'') s"

text \<open>The spellings searched for: every extension as given and in upper case.\<close>

definition spellings :: "string list \<Rightarrow> string list" where
  "spellings file_extensions = concat (map (\<lambda>ext. [ext, upper ext]) file_extensions)"

text \<open>No entry of the list is the end of another entry of the list.\<close>

fun no_overlap :: "string list \<Rightarrow> bool" where
  "no_overlap [] = True"
| "no_overlap (s # ss) = (list_all (\<lambda>t. \<not> suffix s t \<and> \<not> suffix t s) ss \<and> no_overlap ss)"

text \<open>The entries a search of a directory looks at: anywhere below it, or directly in it.\<close>

definition below :: "path \<Rightarrow> bool \<Rightarrow> path \<Rightarrow> bool" where
  "below dir recursive p \<longleftrightarrow>
     (if recursive then strict_prefix dir p else p \<noteq> [] \<and> parent p = dir)"

section \<open>Properties of the classification rule\<close>

lemma is_black_background_four:
  assumes "length p = 4"
  shows "is_black_background self p =
      (if p ! 3 = 0 then Inr True
       else Inr (uint (p ! 0) \<le> threshold self \<and> uint (p ! 1) \<le> threshold self \<and>
                 uint (p ! 2) \<le> threshold self))"
proof -
  from assms obtain r g b a where "p = [r, g, b, a]"
    by (auto simp: length_Suc_conv numeral_eq_Suc)
  then show ?thesis by simp
qed

lemma is_black_background_three:
  assumes "length p = 3"
  shows "is_black_background self p =
      Inr (uint (p ! 0) \<le> threshold self \<and> uint (p ! 1) \<le> threshold self \<and>
           uint (p ! 2) \<le> threshold self)"
proof -
  from assms obtain r g b where "p = [r, g, b]"
    by (auto simp: length_Suc_conv numeral_eq_Suc)
  then show ?thesis by simp
qed

lemma is_black_background_len4:
  "length p = 4 \<Longrightarrow> \<exists>b. is_black_background self p = Inr b"
  by (auto simp: is_black_background_four)

text \<open>
  C1. For a pixel of four channels whose transparency channel is 0 the rule returns true;
  for every other pixel of three or four channels it returns true if and only if each
  of the first three channels is at most the threshold; and it returns a boolean, without
  raising, for every pixel of three or four channels.
\<close>

theorem is_black_background_rule:
  "(length p = 4 \<and> p ! 3 = 0 \<longrightarrow> is_black_background self p = Inr True) \<and>
   ((length p = 3 \<or> length p = 4) \<and> \<not> (length p = 4 \<and> p ! 3 = 0) \<longrightarrow>
      is_black_background self p =
        Inr (uint (p ! 0) \<le> threshold self \<and> uint (p ! 1) \<le> threshold self \<and>
             uint (p ! 2) \<le> threshold self)) \<and>
   ((length p = 3 \<or> length p = 4) \<longrightarrow> (\<exists>b. is_black_background self p = Inr b))"
  using is_black_background_four[of p self] is_black_background_three[of p self] by auto

theorem is_black_background_rule_witness:
  "is_black_background example_remover [200, 100, 50, 0] = Inr True \<and>
   is_black_background example_remover [30, 0, 7] = Inr True \<and>
   is_black_background example_remover [31, 0, 0, 255] = Inr False"
  using is_black_background_rule[of "[200, 100, 50, 0]" example_remover]
    is_black_background_rule[of "[30, 0, 7]" example_remover]
    is_black_background_rule[of "[31, 0, 0, 255]" example_remover]
  by (simp add: example_remover_def)

text \<open>
  C3 (amended). For a pixel of three or four channels: when each of the first three channels
  is at most the threshold, the rule returns true; when one of them is strictly greater
  than the threshold, the rule returns false, unless the pixel has four channels and its
  transparency channel is 0: then the rule returns true, whatever the other channels are.
\<close>

theorem is_black_background_threshold:
  assumes "length p = 3 \<or> length p = 4"
  shows "(uint (p ! 0) \<le> threshold self \<and> uint (p ! 1) \<le> threshold self \<and>
          uint (p ! 2) \<le> threshold self \<longrightarrow> is_black_background self p = Inr True) \<and>
         ((threshold self < uint (p ! 0) \<or> threshold self < uint (p ! 1) \<or>
           threshold self < uint (p ! 2)) \<and> \<not> (length p = 4 \<and> p ! 3 = 0) \<longrightarrow>
          is_black_background self p = Inr False) \<and>
         (length p = 4 \<and> p ! 3 = 0 \<longrightarrow> is_black_background self p = Inr True)"
  using assms is_black_background_four[of p self] is_black_background_three[of p self] by auto

text \<open>
  C3 as stated fails: a pixel of four channels with transparency 0 is classified as
  background whatever its colour channels are.
\<close>

theorem is_black_background_threshold_counterexample:
  "threshold \<lparr>threshold = 30, tolerance = 10\<rparr> < uint (([31, 0, 0, 0] :: pixel) ! 0) \<and>
   is_black_background \<lparr>threshold = 30, tolerance = 10\<rparr> [31, 0, 0, 0] \<noteq> Inr False"
  by simp

theorem is_black_background_threshold_witness:
  "is_black_background \<lparr>threshold = 30, tolerance = 10\<rparr> [30, 0, 7] = Inr True \<and>
   is_black_background \<lparr>threshold = 30, tolerance = 10\<rparr> [0, 31, 0, 255] = Inr False \<and>
   is_black_background \<lparr>threshold = 30, tolerance = 10\<rparr> [31, 0, 0, 0] = Inr True"
  using is_black_background_threshold[of "[30, 0, 7]" "\<lparr>threshold = 30, tolerance = 10\<rparr>"]
    is_black_background_threshold[of "[0, 31, 0, 255]" "\<lparr>threshold = 30, tolerance = 10\<rparr>"]
    is_black_background_threshold[of "[31, 0, 0, 0]" "\<lparr>threshold = 30, tolerance = 10\<rparr>"]
  by simp

section \<open>Properties of the transform\<close>

lemma loop_x_result:
  assumes "y < length data" "y < length alpha" "length (alpha ! y) = length (data ! y)"
    and "\<forall>x\<in>set xs. x < length (data ! y)"
    and "\<forall>p\<in>set (data ! y). length p = 4"
  shows "\<exists>alpha'. loop_x self data alpha y xs = Inr alpha' \<and>
           length alpha' = length alpha \<and>
           (\<forall>y'<length alpha. length (alpha' ! y') = length (alpha ! y')) \<and>
           (\<forall>y'<length alpha. \<forall>x'<length (alpha ! y').
              alpha' ! y' ! x' =
                (if y' = y \<and> x' \<in> set xs \<and> is_black_background self (data ! y ! x') = Inr True
                 then 0 else alpha ! y' ! x'))"
  using assms
proof (induction xs arbitrary: alpha)
  case Nil
  then show ?case by simp
next
  case (Cons x xs)
  have xin: "x < length (data ! y)" using Cons.prems by simp
  then have g: "get2 data y x = Inr (data ! y ! x)"
    using Cons.prems by (simp add: get2_def)
  have "length (data ! y ! x) = 4" using Cons.prems xin by simp
  then obtain b where b: "is_black_background self (data ! y ! x) = Inr b"
    using is_black_background_len4 by blast
  show ?case
  proof (cases b)
    case False
    have "loop_x self data alpha y (x # xs) = loop_x self data alpha y xs"
      using g b False by simp
    moreover from Cons.IH[of alpha] Cons.prems obtain alpha' where
      "loop_x self data alpha y xs = Inr alpha'" "length alpha' = length alpha"
      "\<forall>y'<length alpha. length (alpha' ! y') = length (alpha ! y')"
      "\<forall>y'<length alpha. \<forall>x'<length (alpha ! y').
              alpha' ! y' ! x' =
                (if y' = y \<and> x' \<in> set xs \<and> is_black_background self (data ! y ! x') = Inr True
                 then 0 else alpha ! y' ! x')"
      by auto
    ultimately show ?thesis using b False by auto
  next
    case True
    define alpha1 where "alpha1 = alpha[y := (alpha ! y)[x := 0]]"
    have s: "set2 alpha y x 0 = Inr alpha1"
      using Cons.prems xin by (simp add: set2_def alpha1_def)
    have step: "loop_x self data alpha y (x # xs) = loop_x self data alpha1 y xs"
      using g b True s by simp
    have p1: "y < length alpha1" "length (alpha1 ! y) = length (data ! y)"
      using Cons.prems by (simp_all add: alpha1_def)
    from Cons.IH[of alpha1] p1 Cons.prems obtain alpha' where a:
      "loop_x self data alpha1 y xs = Inr alpha'" "length alpha' = length alpha1"
      "\<forall>y'<length alpha1. length (alpha' ! y') = length (alpha1 ! y')"
      "\<forall>y'<length alpha1. \<forall>x'<length (alpha1 ! y').
              alpha' ! y' ! x' =
                (if y' = y \<and> x' \<in> set xs \<and> is_black_background self (data ! y ! x') = Inr True
                 then 0 else alpha1 ! y' ! x')"
      by auto
    have l1: "length alpha1 = length alpha" by (simp add: alpha1_def)
    have l2: "length (alpha1 ! y') = length (alpha ! y')" if "y' < length alpha" for y'
      using that by (cases "y' = y") (simp_all add: alpha1_def)
    have v: "alpha1 ! y' ! x' = (if y' = y \<and> x' = x then 0 else alpha ! y' ! x')"
      if "y' < length alpha" "x' < length (alpha ! y')" for y' x'
      using that by (cases "y' = y"; cases "x' = x") (simp_all add: alpha1_def)
    show ?thesis
      using step a l1 l2 v b True by auto
  qed
qed

lemma loop_y_result:
  assumes "length alpha = length data"
    and "\<forall>y<length data. length (alpha ! y) = w \<and> length (data ! y) = w \<and>
           (\<forall>p\<in>set (data ! y). length p = 4)"
    and "\<forall>y\<in>set ys. y < length data"
  shows "\<exists>alpha'. loop_y self data alpha w ys = Inr alpha' \<and>
           length alpha' = length alpha \<and>
           (\<forall>y'<length alpha. length (alpha' ! y') = w) \<and>
           (\<forall>y'<length alpha. \<forall>x'<w.
              alpha' ! y' ! x' =
                (if y' \<in> set ys \<and> is_black_background self (data ! y' ! x') = Inr True
                 then 0 else alpha ! y' ! x'))"
  using assms
proof (induction ys arbitrary: alpha)
  case Nil
  then show ?case by simp
next
  case (Cons y ys)
  have yin: "y < length data" "y < length alpha" using Cons.prems by simp_all
  have rowlen: "length (alpha ! y) = length (data ! y)" "length (data ! y) = w"
    using Cons.prems yin by simp_all
  have px: "\<forall>p\<in>set (data ! y). length p = 4" using Cons.prems yin by simp
  have xs: "\<forall>x\<in>set [0..<w]. x < length (data ! y)" using rowlen by simp
  from loop_x_result[OF yin rowlen(1) xs px, of self] obtain alpha1 where a1:
    "loop_x self data alpha y [0..<w] = Inr alpha1" "length alpha1 = length alpha"
    "\<forall>y'<length alpha. length (alpha1 ! y') = length (alpha ! y')"
    "\<forall>y'<length alpha. \<forall>x'<length (alpha ! y').
        alpha1 ! y' ! x' =
          (if y' = y \<and> x' \<in> set [0..<w] \<and> is_black_background self (data ! y ! x') = Inr True
           then 0 else alpha ! y' ! x')"
    by blast
  have step: "loop_y self data alpha w (y # ys) = loop_y self data alpha1 w ys"
    using a1(1) by simp
  have h1: "length alpha1 = length data" using a1(2) Cons.prems by simp
  have h2: "\<forall>y<length data. length (alpha1 ! y) = w \<and> length (data ! y) = w \<and>
           (\<forall>p\<in>set (data ! y). length p = 4)"
    using a1(2,3) Cons.prems by simp
  have h3: "\<forall>y\<in>set ys. y < length data" using Cons.prems by simp
  from Cons.IH[OF h1 h2 h3] obtain alpha' where a:
    "loop_y self data alpha1 w ys = Inr alpha'" "length alpha' = length alpha1"
    "\<forall>y'<length alpha1. length (alpha' ! y') = w"
    "\<forall>y'<length alpha1. \<forall>x'<w.
        alpha' ! y' ! x' =
          (if y' \<in> set ys \<and> is_black_background self (data ! y' ! x') = Inr True
           then 0 else alpha1 ! y' ! x')"
    by blast
  have v: "alpha1 ! y' ! x' =
          (if y' = y \<and> is_black_background self (data ! y ! x') = Inr True
           then 0 else alpha ! y' ! x')" if "y' < length alpha" "x' < w" for y' x'
    using a1(4) that Cons.prems by simp
  show ?case
    using step a a1(2) v by auto
qed

lemma wf_image_nth:
  "wf_image img \<longleftrightarrow>
     length (pixels img) = height img \<and>
     (\<forall>y<height img. length (pixels img ! y) = width img \<and>
        (\<forall>x<width img. length (pixels img ! y ! x) = channels (mode img)))"
  by (auto simp: wf_image_def list_all_length)

lemma upgraded_props:
  assumes "wf_image img"
  shows "wf_image (upgraded img)" "mode (upgraded img) = RGBA"
    "height (upgraded img) = height img" "width (upgraded img) = width img"
    "\<And>y x. y < height img \<Longrightarrow> x < width img \<Longrightarrow>
       pixels (upgraded img) ! y ! x =
         (if mode img = RGB then pixels img ! y ! x @ [255] else pixels img ! y ! x)"
proof -
  show "mode (upgraded img) = RGBA"
    by (simp add: upgraded_def convert_RGBA_def)
  show "height (upgraded img) = height img" "width (upgraded img) = width img"
    by (simp_all add: upgraded_def convert_RGBA_def)
  show "wf_image (upgraded img)"
    using assms by (cases "mode img") (auto simp: wf_image_nth upgraded_def convert_RGBA_def)
  show "pixels (upgraded img) ! y ! x =
         (if mode img = RGB then pixels img ! y ! x @ [255] else pixels img ! y ! x)"
    if "y < height img" "x < width img" for y x
    using assms that by (cases "mode img") (auto simp: wf_image_nth upgraded_def convert_RGBA_def)
qed

lemma set_channel3_nth:
  assumes "length alpha = length data" "y < length data"
    "length (alpha ! y) = length (data ! y)" "x < length (data ! y)"
  shows "set_channel3 data alpha ! y ! x = (data ! y ! x)[3 := alpha ! y ! x]"
  using assms by (simp add: set_channel3_def)

lemma set_channel3_length:
  "length alpha = length data \<Longrightarrow> length (set_channel3 data alpha) = length data"
  "length alpha = length data \<Longrightarrow> y < length data \<Longrightarrow> length (alpha ! y) = length (data ! y)
     \<Longrightarrow> length (set_channel3 data alpha ! y) = length (data ! y)"
  by (simp_all add: set_channel3_def)

lemma transform_upgraded:
  "transform self img =
     (case loop_y self (pixels (upgraded img)) (get_channel3 (pixels (upgraded img)))
             (width (upgraded img)) [0..<height (upgraded img)] of
        Inl e \<Rightarrow> Inl e
      | Inr alpha_channel' \<Rightarrow>
          Inr ((upgraded img)\<lparr>pixels := set_channel3 (pixels (upgraded img)) alpha_channel'\<rparr>))"
  by (simp add: transform_def Let_def upgraded_def cong: sum.case_cong)

lemma transform_result:
  assumes "wf_image img"
  shows "\<exists>out. transform self img = Inr out \<and> wf_image out \<and> mode out = RGBA \<and>
           height out = height img \<and> width out = width img \<and>
           (\<forall>y<height img. \<forall>x<width img.
              pixels out ! y ! x =
                (if is_black_background self (pixels (upgraded img) ! y ! x) = Inr True
                 then (pixels (upgraded img) ! y ! x)[3 := 0]
                 else pixels (upgraded img) ! y ! x))"
proof -
  define u where "u = upgraded img"
  define data where "data = pixels u"
  define alpha where "alpha = get_channel3 data"
  note up = upgraded_props[OF assms, folded u_def]
  have wfu: "length data = height img"
    "\<And>y. y < height img \<Longrightarrow> length (data ! y) = width img"
    "\<And>y x. y < height img \<Longrightarrow> x < width img \<Longrightarrow> length (data ! y ! x) = 4"
    using up(1) by (simp_all add: wf_image_nth up(2,3,4) data_def)
  have al: "length alpha = length data"
    "\<And>y. y < height img \<Longrightarrow> length (alpha ! y) = width img"
    "\<And>y x. y < height img \<Longrightarrow> x < width img \<Longrightarrow> alpha ! y ! x = data ! y ! x ! 3"
    using wfu by (simp_all add: alpha_def get_channel3_def)
  have pre: "\<forall>y<length data. length (alpha ! y) = width img \<and> length (data ! y) = width img \<and>
           (\<forall>p\<in>set (data ! y). length p = 4)"
    using wfu al by (auto simp: in_set_conv_nth)
  have ys: "\<forall>y\<in>set [0..<height img]. y < length data" using wfu by simp
  from loop_y_result[OF al(1) pre ys, of self] obtain alpha' where a:
    "loop_y self data alpha (width img) [0..<height img] = Inr alpha'"
    "length alpha' = length alpha"
    "\<forall>y'<length alpha. length (alpha' ! y') = width img"
    "\<forall>y'<length alpha. \<forall>x'<width img.
        alpha' ! y' ! x' =
          (if y' \<in> set [0..<height img] \<and> is_black_background self (data ! y' ! x') = Inr True
           then 0 else alpha ! y' ! x')"
    by blast
  define out where "out = u\<lparr>pixels := set_channel3 data alpha'\<rparr>"
  have t: "transform self img = Inr out"
  proof -
    have "transform self img =
       (case loop_y self (pixels u) (get_channel3 (pixels u)) (width u) [0..<height u] of
           Inl e \<Rightarrow> Inl e
         | Inr alpha_channel' \<Rightarrow> Inr (u\<lparr>pixels := set_channel3 (pixels u) alpha_channel'\<rparr>))"
      unfolding u_def by (rule transform_upgraded)
    also have "\<dots> = Inr out"
      using a(1) by (simp add: out_def data_def alpha_def up)
    finally show ?thesis .
  qed
  have la: "length alpha' = length data" using a(2) al(1) by simp
  have px: "pixels out ! y ! x =
      (if is_black_background self (data ! y ! x) = Inr True
       then (data ! y ! x)[3 := 0] else data ! y ! x)" if "y < height img" "x < width img" for y x
  proof -
    have "pixels out ! y ! x = (data ! y ! x)[3 := alpha' ! y ! x]"
      using that wfu a(3) al(1) la by (simp add: out_def set_channel3_nth)
    moreover have "alpha' ! y ! x =
       (if is_black_background self (data ! y ! x) = Inr True then 0 else data ! y ! x ! 3)"
      using that a(4) al wfu by simp
    ultimately show ?thesis by simp
  qed
  have lens: "length (pixels out) = height img"
    "\<And>y. y < height img \<Longrightarrow> length (pixels out ! y) = width img"
    using wfu a(3) al(1) la by (simp_all add: out_def set_channel3_length)
  have "wf_image out"
    unfolding wf_image_nth
    using lens px wfu(3) by (auto simp: out_def up)
  moreover have "mode out = RGBA" "height out = height img" "width out = width img"
    by (simp_all add: out_def up)
  ultimately show ?thesis
    using t px by (auto simp: data_def u_def)
qed

text \<open>
  C2. On every well-formed buffer of three or four channels (of any size, 0x0 included) the
  transform succeeds with a well-formed buffer of the same width and height and of four
  channels. At every position, with \<open>p\<close> the input pixel (with 255 appended when the
  input has three channels): the rule returns a boolean on \<open>p\<close>; when it is true the
  output pixel has transparency 0; when it is false the output pixel is \<open>p\<close>; and the
  first three channels of the output pixel are those of the input pixel.
\<close>

theorem transform_correct:
  assumes "wf_image img"
  shows "\<exists>out. transform self img = Inr out \<and>
           wf_image out \<and> mode out = RGBA \<and>
           height out = height img \<and> width out = width img \<and>
           (\<forall>y<height img. \<forall>x<width img.
              let p_in = pixels img ! y ! x;
                  p = (if mode img = RGB then p_in @ [255] else p_in);
                  p_out = pixels out ! y ! x
              in length p_out = 4 \<and>
                 (\<exists>b. is_black_background self p = Inr b) \<and>
                 (is_black_background self p = Inr True \<longrightarrow> p_out ! 3 = 0) \<and>
                 (is_black_background self p = Inr False \<longrightarrow> p_out = p) \<and>
                 take 3 p_out = take 3 p_in)"
proof -
  from transform_result[OF assms, of self] obtain out where o:
    "transform self img = Inr out" "wf_image out" "mode out = RGBA"
    "height out = height img" "width out = width img"
    "\<forall>y<height img. \<forall>x<width img.
        pixels out ! y ! x =
          (if is_black_background self (pixels (upgraded img) ! y ! x) = Inr True
           then (pixels (upgraded img) ! y ! x)[3 := 0]
           else pixels (upgraded img) ! y ! x)"
    by blast
  have px: "let p_in = pixels img ! y ! x;
                  p = (if mode img = RGB then p_in @ [255] else p_in);
                  p_out = pixels out ! y ! x
              in length p_out = 4 \<and>
                 (\<exists>b. is_black_background self p = Inr b) \<and>
                 (is_black_background self p = Inr True \<longrightarrow> p_out ! 3 = 0) \<and>
                 (is_black_background self p = Inr False \<longrightarrow> p_out = p) \<and>
                 take 3 p_out = take 3 p_in"
    if yx: "y < height img" "x < width img" for y x
  proof -
    define p_in where "p_in = pixels img ! y ! x"
    define p where "p = (if mode img = RGB then p_in @ [255] else p_in)"
    have lin: "length p_in = channels (mode img)"
      using assms yx by (simp add: wf_image_nth p_in_def)
    have up: "pixels (upgraded img) ! y ! x = p"
      using upgraded_props(5)[OF assms yx] by (simp add: p_def p_in_def)
    have lp: "length p = 4"
      using lin by (cases "mode img") (simp_all add: p_def)
    have tk: "take 3 p = take 3 p_in"
      using lin by (cases "mode img") (simp_all add: p_def)
    have out: "pixels out ! y ! x = (if is_black_background self p = Inr True then p[3 := 0] else p)"
      using o(6) yx up by simp
    obtain b where b: "is_black_background self p = Inr b"
      using is_black_background_len4[OF lp] by blast
    show ?thesis
      unfolding Let_def p_in_def[symmetric] p_def[symmetric] out
      using lp tk b by (cases b) auto
  qed
  show ?thesis
    using o(1-5) px by blast
qed

lemma transform_example:
  "transform example_remover example_image =
     Inr \<lparr>mode = RGBA, height = 1, width = 2, pixels = [[[0, 0, 0, 0], [31, 0, 0, 255]]]\<rparr>"
  by (simp add: transform_def example_image_def example_remover_def convert_RGBA_def
      get_channel3_def set_channel3_def get2_def set2_def Let_def upt_rec)

lemma wf_example: "wf_image example_image"
  by (simp add: wf_image_def example_image_def)

theorem transform_correct_witness:
  "wf_image example_image \<and>
   (\<exists>out. transform example_remover example_image = Inr out \<and> wf_image out \<and> mode out = RGBA \<and>
      height out = 1 \<and> width out = 2 \<and>
      pixels out ! 0 ! 0 ! 3 = 0 \<and> pixels out ! 0 ! 1 = [31, 0, 0, 255])"
proof -
  have wf: "wf_image example_image"
    by (simp add: wf_image_def example_image_def)
  from transform_correct[OF wf, of example_remover] obtain out where o:
    "transform example_remover example_image = Inr out" "wf_image out" "mode out = RGBA"
    "height out = height example_image" "width out = width example_image"
    "\<forall>y<height example_image. \<forall>x<width example_image.
              let p_in = pixels example_image ! y ! x;
                  p = (if mode example_image = RGB then p_in @ [255] else p_in);
                  p_out = pixels out ! y ! x
              in length p_out = 4 \<and>
                 (\<exists>b. is_black_background example_remover p = Inr b) \<and>
                 (is_black_background example_remover p = Inr True \<longrightarrow> p_out ! 3 = 0) \<and>
                 (is_black_background example_remover p = Inr False \<longrightarrow> p_out = p) \<and>
                 take 3 p_out = take 3 p_in"
    by blast
  have "pixels out ! 0 ! 0 ! 3 = 0"
    using o(6)[rule_format, of 0 0] by (simp add: example_image_def example_remover_def Let_def)
  moreover have "pixels out ! 0 ! 1 = [31, 0, 0, 255]"
    using o(6)[rule_format, of 0 1] by (simp add: example_image_def example_remover_def Let_def)
  ultimately show ?thesis
    using wf o(1-5) by (simp add: example_image_def)
qed

text \<open>
  C4. The transform is idempotent: on a well-formed buffer it succeeds, and applying it to
  its own output with the same remover returns that output again.
\<close>

theorem transform_idempotent:
  assumes "wf_image img"
  shows "\<exists>out. transform self img = Inr out \<and> transform self out = Inr out"
proof -
  from transform_result[OF assms, of self] obtain out where o:
    "transform self img = Inr out" "wf_image out" "mode out = RGBA"
    "height out = height img" "width out = width img"
    "\<forall>y<height img. \<forall>x<width img.
        pixels out ! y ! x =
          (if is_black_background self (pixels (upgraded img) ! y ! x) = Inr True
           then (pixels (upgraded img) ! y ! x)[3 := 0]
           else pixels (upgraded img) ! y ! x)"
    by blast
  have uo: "upgraded out = out" using o(3) by (simp add: upgraded_def)
  from transform_result[OF o(2), of self] obtain out2 where o2:
    "transform self out = Inr out2" "wf_image out2" "mode out2 = RGBA"
    "height out2 = height out" "width out2 = width out"
    "\<forall>y<height out. \<forall>x<width out.
        pixels out2 ! y ! x =
          (if is_black_background self (pixels out ! y ! x) = Inr True
           then (pixels out ! y ! x)[3 := 0]
           else pixels out ! y ! x)"
    unfolding uo by blast
  have same: "pixels out2 ! y ! x = pixels out ! y ! x" if yx: "y < height img" "x < width img" for y x
  proof -
    define p where "p = pixels (upgraded img) ! y ! x"
    define q where "q = pixels out ! y ! x"
    have lp: "length p = 4"
      using upgraded_props(1,2,3,4)[OF assms] yx by (simp add: wf_image_nth p_def)
    have q: "q = (if is_black_background self p = Inr True then p[3 := 0] else p)"
      using o(6) yx by (simp add: p_def q_def)
    have q2: "pixels out2 ! y ! x = (if is_black_background self q = Inr True then q[3 := 0] else q)"
      using o2(6) o(4,5) yx by (simp add: q_def)
    show ?thesis
    proof (cases "is_black_background self p = Inr True")
      case True
      then have "q = p[3 := 0]" using q by simp
      then have "q[3 := 0] = q" by simp
      then show ?thesis using q2 by (simp add: q_def)
    next
      case False
      then have "q = p" using q by simp
      then show ?thesis using q2 False by (simp add: q_def)
    qed
  qed
  have rows: "pixels out2 ! y = pixels out ! y" if y: "y < height img" for y
  proof (rule nth_equalityI)
    show "length (pixels out2 ! y) = length (pixels out ! y)"
      using o(2) o2(2) o(4,5) o2(4,5) y by (simp add: wf_image_nth)
    show "pixels out2 ! y ! x = pixels out ! y ! x" if "x < length (pixels out2 ! y)" for x
      using same[OF y, of x] that o2(2) o(4,5) o2(4,5) y by (simp add: wf_image_nth)
  qed
  have "pixels out2 = pixels out"
  proof (rule nth_equalityI)
    show "length (pixels out2) = length (pixels out)"
      using o(2) o2(2) o2(4) by (simp add: wf_image_nth)
    show "pixels out2 ! y = pixels out ! y" if "y < length (pixels out2)" for y
      using rows[of y] that o2(2) o2(4) o(4) by (simp add: wf_image_nth)
  qed
  moreover have "out2 = out\<lparr>pixels := pixels out2\<rparr>"
    using o2(1) by (auto simp: transform_upgraded uo split: sum.splits)
  ultimately have "out2 = out" by simp
  then show ?thesis using o(1) o2(1) by simp
qed

theorem transform_idempotent_witness:
  "wf_image example_image \<and>
   (\<exists>out. transform example_remover example_image = Inr out \<and>
          transform example_remover out = Inr out)"
proof -
  have wf: "wf_image example_image"
    by (simp add: wf_image_def example_image_def)
  show ?thesis
    using wf transform_idempotent[OF wf, of example_remover] by simp
qed

lemma is_black_background_tolerance:
  "threshold s1 = threshold s2 \<Longrightarrow> is_black_background s1 p = is_black_background s2 p"
  by (cases "(s1, p)" rule: is_black_background.cases) simp_all

lemma loop_x_tolerance:
  "threshold s1 = threshold s2 \<Longrightarrow> loop_x s1 data alpha y xs = loop_x s2 data alpha y xs"
  by (induction xs arbitrary: alpha)
     (simp_all add: is_black_background_tolerance[of s1 s2] split: sum.splits)

lemma loop_y_tolerance:
  "threshold s1 = threshold s2 \<Longrightarrow> loop_y s1 data alpha w ys = loop_y s2 data alpha w ys"
  by (induction ys arbitrary: alpha) (simp_all add: loop_x_tolerance[of s1 s2] split: sum.splits)

lemma transform_tolerance:
  "threshold s1 = threshold s2 \<Longrightarrow> transform s1 img = transform s2 img"
  by (simp add: transform_def loop_y_tolerance[of s1 s2])

text \<open>
  C5. The tolerance field has no effect: with the same threshold, two removers that differ
  in their tolerance classify every pixel alike and transform every buffer alike.
\<close>

theorem tolerance_noninterference:
  "is_black_background \<lparr>threshold = T, tolerance = t1\<rparr> p =
     is_black_background \<lparr>threshold = T, tolerance = t2\<rparr> p \<and>
   transform \<lparr>threshold = T, tolerance = t1\<rparr> img =
     transform \<lparr>threshold = T, tolerance = t2\<rparr> img"
  by (simp add: is_black_background_tolerance[of "\<lparr>threshold = T, tolerance = t1\<rparr>"]
      transform_tolerance[of "\<lparr>threshold = T, tolerance = t1\<rparr>"])

section \<open>Properties of the batch orchestrator\<close>

subsection \<open>Counting\<close>

lemma batch_step_counts:
  assumes "batch_step self input_path output_path quality image_file (st, fs) = (st', fs')"
  shows "stats.total st' = stats.total st \<and>
         ((success st' = success st + 1 \<and> failed st' = failed st) \<or>
          (success st' = success st \<and> failed st' = failed st + 1))"
  using assms by (auto simp: batch_step_def split: sum.splits prod.splits if_splits)

lemma batch_loop_counts:
  "batch_loop self input_path output_path quality image_files (st, fs) = (st', fs') \<Longrightarrow>
     stats.total st' = stats.total st \<and>
     success st' + failed st' = success st + failed st + length image_files"
proof (induction image_files arbitrary: st fs)
  case Nil
  then show ?case by simp
next
  case (Cons image_file image_files)
  obtain st1 fs1 where s1:
    "batch_step self input_path output_path quality image_file (st, fs) = (st1, fs1)"
    by (cases "batch_step self input_path output_path quality image_file (st, fs)")
  from Cons.prems have
    "batch_loop self input_path output_path quality image_files (st1, fs1) = (st', fs')"
    by (simp add: s1)
  from Cons.IH[OF this] batch_step_counts[OF s1] show ?case by auto
qed

lemma mkdir_from_error:
  "mkdir_from fs pre p = Inl e \<Longrightarrow> e = FileExistsError \<or> e = NotADirectoryError"
  by (induction fs pre p rule: mkdir_from.induct)
     (auto split: option.splits node.splits if_splits)

lemma mkdir_error: "mkdir fs p = Inl e \<Longrightarrow> e = FileExistsError \<or> e = NotADirectoryError"
  unfolding mkdir_def by (rule mkdir_from_error)

lemma extend_all_error:
  assumes "\<And>pat e. g pat = Inl e \<Longrightarrow> e = InvalidPattern"
  shows "extend_all g exts image_files = Inl e \<Longrightarrow> e = InvalidPattern"
  using assms by (induction exts arbitrary: image_files) (auto split: sum.splits)

lemma discover_error:
  "discover fs input_path recursive file_extensions = Inl e \<Longrightarrow> e = InvalidPattern"
proof -
  have "\<And>pat e. glob fs input_path pat = Inl e \<Longrightarrow> e = InvalidPattern"
    by (auto simp: glob_def split: if_splits)
  moreover have "\<And>pat e. rglob fs input_path pat = Inl e \<Longrightarrow> e = InvalidPattern"
    by (auto simp: rglob_def split: if_splits)
  ultimately show "discover fs input_path recursive file_extensions = Inl e \<Longrightarrow> e = InvalidPattern"
    using extend_all_error[of "glob fs input_path"] extend_all_error[of "rglob fs input_path"]
    by (auto simp: discover_def split: if_splits)
qed

text \<open>
  The ways out of \<^verbatim>\<open>batch_remove_background\<close>. The early return on an empty list of
  image files is the loop over no file.
\<close>

lemma batch_remove_background_cases:
  "batch_remove_background self fs input_dir output_dir recursive file_extensions quality =
     (if \<not> exists_path fs input_dir then (Inl InvalidInputRoot, fs)
      else case mkdir fs (output_root input_dir output_dir) of
             Inl e \<Rightarrow> (Inl e, fs)
           | Inr fs1 \<Rightarrow>
               (case discover fs1 input_dir recursive file_extensions of
                  Inl e \<Rightarrow> (Inl e, fs1)
                | Inr image_files \<Rightarrow>
                    (case batch_loop self input_dir (output_root input_dir output_dir) quality
                            image_files
                            (\<lparr>total = length image_files, success = 0, failed = 0\<rparr>, fs1) of
                       (st, fs') \<Rightarrow> (Inr st, fs'))))"
  by (auto simp: batch_remove_background_def output_root_def Let_def split: sum.splits)

lemma batch_returns:
  assumes "exists_path fs input_dir" and "mkdir fs (output_root input_dir output_dir) = Inr fs1"
    and "discover fs1 input_dir recursive file_extensions = Inr image_files"
  shows "\<exists>st. fst (batch_remove_background self fs input_dir output_dir recursive
                      file_extensions quality) = Inr st \<and>
              stats.total st = length image_files \<and>
              success st + failed st = stats.total st"
proof -
  obtain st' fs' where l:
    "batch_loop self input_dir (output_root input_dir output_dir) quality image_files
       (\<lparr>total = length image_files, success = 0, failed = 0\<rparr>, fs1) = (st', fs')"
    by (cases "batch_loop self input_dir (output_root input_dir output_dir) quality image_files
       (\<lparr>total = length image_files, success = 0, failed = 0\<rparr>, fs1)")
  have "fst (batch_remove_background self fs input_dir output_dir recursive file_extensions
               quality) = Inr st'"
    using assms l by (simp add: batch_remove_background_cases)
  with batch_loop_counts[OF l] show ?thesis
    by auto
qed

text \<open>
  C6. When \<^verbatim>\<open>batch_remove_background\<close> returns its statistics, \<open>total\<close> is the number of
  entries of the discovered sequence (searched once the output directory is there) and
  \<open>success + failed = total\<close>; every turn of the loop leaves \<open>total\<close> alone and adds one to
  exactly one of \<open>success\<close> and \<open>failed\<close>.
\<close>

theorem batch_counts:
  assumes "fst (batch_remove_background self fs input_dir output_dir recursive file_extensions
                  quality) = Inr st"
  shows "(\<exists>fs1 image_files.
            mkdir fs (output_root input_dir output_dir) = Inr fs1 \<and>
            discover fs1 input_dir recursive file_extensions = Inr image_files \<and>
            stats.total st = length image_files) \<and>
         success st + failed st = stats.total st \<and>
         (case batch_step self input_dir (output_root input_dir output_dir) quality image_file
                 (st0, fs0) of
            (st1, fs1) \<Rightarrow>
              stats.total st1 = stats.total st0 \<and>
              (success st1 = success st0 + 1 \<and> failed st1 = failed st0 \<or>
               success st1 = success st0 \<and> failed st1 = failed st0 + 1))"
proof -
  from assms have ex: "exists_path fs input_dir"
    by (auto simp: batch_remove_background_cases split: if_splits)
  from assms ex obtain fs1 where m: "mkdir fs (output_root input_dir output_dir) = Inr fs1"
    by (cases "mkdir fs (output_root input_dir output_dir)")
       (auto simp: batch_remove_background_cases)
  from assms ex m obtain image_files where
    d: "discover fs1 input_dir recursive file_extensions = Inr image_files"
    by (cases "discover fs1 input_dir recursive file_extensions")
       (auto simp: batch_remove_background_cases)
  from batch_returns[OF ex m d, of self quality] assms m d
  have "(\<exists>fs1 image_files.
            mkdir fs (output_root input_dir output_dir) = Inr fs1 \<and>
            discover fs1 input_dir recursive file_extensions = Inr image_files \<and>
            stats.total st = length image_files) \<and>
         success st + failed st = stats.total st"
    by auto
  moreover have "case batch_step self input_dir (output_root input_dir output_dir) quality
                   image_file (st0, fs0) of
            (st1, fs1) \<Rightarrow>
              stats.total st1 = stats.total st0 \<and>
              (success st1 = success st0 + 1 \<and> failed st1 = failed st0 \<or>
               success st1 = success st0 \<and> failed st1 = failed st0 + 1)"
    using batch_step_counts[of self input_dir "output_root input_dir output_dir" quality
        image_file st0 fs0]
    by (cases "batch_step self input_dir (output_root input_dir output_dir) quality image_file
                 (st0, fs0)") simp
  ultimately show ?thesis by blast
qed

theorem batch_counts_witness:
  "fst (batch_remove_background example_remover example_fs [''in''] None True
          [''.jpg'', ''.jpeg''] 95) = Inr \<lparr>total = 3, success = 2, failed = 1\<rparr> \<and>
   (\<exists>fs1 image_files. mkdir example_fs (output_root [''in''] None) = Inr fs1 \<and>
      discover fs1 [''in''] True [''.jpg'', ''.jpeg''] = Inr image_files \<and>
      (3::nat) = length image_files) \<and>
   (2::nat) + 1 = 3"
proof -
  have r: "fst (batch_remove_background example_remover example_fs [''in''] None True
          [''.jpg'', ''.jpeg''] 95) = Inr \<lparr>total = 3, success = 2, failed = 1\<rparr>"
    by code_simp
  show ?thesis
    using r batch_counts[OF r] by simp
qed

subsection \<open>An input directory without a matching file\<close>

text \<open>
  C7, evaluated on an input directory \<open>in\<close> that exists and holds nothing, with no output
  directory given: the statistics are all zero, and the directory \<open>in/processed\<close> has been
  created, since \<^verbatim>\<open>output_path.mkdir\<close> runs before the search for image files.
\<close>

theorem empty_batch_creates_output_dir:
  "batch_remove_background example_remover [([''in''], Dir)] [''in''] None True
      [''.jpg'', ''.jpeg''] 95 =
     (Inr \<lparr>total = 0, success = 0, failed = 0\<rparr>,
      [([''in''], Dir), ([''in'', ''processed''], Dir)])"
  by code_simp

subsection \<open>The input directory that does not exist\<close>

text \<open>
  C8. \<^verbatim>\<open>batch_remove_background\<close> raises the error of the missing input directory if and
  only if nothing exists at the input path (\<^verbatim>\<open>Path.exists\<close> is false); and then it leaves
  the file system as it found it: no directory is created and no file is processed.
\<close>

theorem invalid_input_root:
  "(fst (batch_remove_background self fs input_dir output_dir recursive file_extensions quality)
      = Inl InvalidInputRoot \<longleftrightarrow> \<not> exists_path fs input_dir) \<and>
   (\<not> exists_path fs input_dir \<longrightarrow>
      snd (batch_remove_background self fs input_dir output_dir recursive file_extensions quality)
        = fs)"
proof -
  have "fst (batch_remove_background self fs input_dir output_dir recursive file_extensions quality)
      \<noteq> Inl InvalidInputRoot" if ex: "exists_path fs input_dir"
  proof (cases "mkdir fs (output_root input_dir output_dir)")
    case (Inl e)
    then have "e \<noteq> InvalidInputRoot" using mkdir_error by fastforce
    then show ?thesis using ex Inl by (simp add: batch_remove_background_cases)
  next
    case m: (Inr fs1)
    show ?thesis
    proof (cases "discover fs1 input_dir recursive file_extensions")
      case (Inl e)
      then have "e \<noteq> InvalidInputRoot" using discover_error by fastforce
      then show ?thesis using ex m Inl by (simp add: batch_remove_background_cases)
    next
      case (Inr image_files)
      then show ?thesis using ex m
        by (simp add: batch_remove_background_cases split: prod.splits)
    qed
  qed
  then show ?thesis
    by (auto simp: batch_remove_background_cases)
qed

theorem invalid_input_root_witness:
  "\<not> exists_path example_fs [''nope''] \<and>
   batch_remove_background example_remover example_fs [''nope''] None True
     [''.jpg'', ''.jpeg''] 95 = (Inl InvalidInputRoot, example_fs) \<and>
   exists_path example_fs [''in''] \<and>
   fst (batch_remove_background example_remover example_fs [''in''] None True
     [''.jpg'', ''.jpeg''] 95) \<noteq> Inl InvalidInputRoot"
proof -
  have n: "\<not> exists_path example_fs [''nope'']" by code_simp
  have y: "exists_path example_fs [''in'']" by code_simp
  show ?thesis
    using n y
      invalid_input_root[of example_remover example_fs "[''nope'']" None True
        "[''.jpg'', ''.jpeg'']" 95]
      invalid_input_root[of example_remover example_fs "[''in'']" None True
        "[''.jpg'', ''.jpeg'']" 95]
    by (simp add: prod_eq_iff)
qed

text \<open>
  An extension that starts with a star gives a pattern with \<open>**\<close> inside a component:
  the search is refused, after the output directory has been created.
\<close>

lemma refused_pattern_example:
  "batch_remove_background example_remover [([''in''], Dir)] [''in''] None True [''*.jpg''] 95 =
     (Inl InvalidPattern, [([''in''], Dir), ([''in'', ''processed''], Dir)])"
  by code_simp

subsection \<open>Failures of single files\<close>







subsection \<open>The search for image files\<close>

lemma fnmatch_literal:
  "list_all (\<lambda>c. c \<noteq> CHR ''*'' \<and> c \<noteq> CHR ''?'') pat \<Longrightarrow> fnmatch n pat \<longleftrightarrow> n = pat"
proof (induction pat arbitrary: n)
  case Nil
  then show ?case by simp
next
  case (Cons c pat)
  then show ?case by (cases n) auto
qed

lemma fnmatch_star:
  "fnmatch n (CHR ''*'' # pat) \<longleftrightarrow> (\<exists>k\<le>length n. fnmatch (drop k n) pat)"
proof (induction n)
  case Nil
  then show ?case by simp
next
  case (Cons d n)
  have "fnmatch (d # n) (CHR ''*'' # pat) \<longleftrightarrow>
          fnmatch (d # n) pat \<or> fnmatch n (CHR ''*'' # pat)"
    by simp
  also have "\<dots> \<longleftrightarrow> fnmatch (drop 0 (d # n)) pat \<or> (\<exists>k\<le>length n. fnmatch (drop (Suc k) (d # n)) pat)"
    using Cons.IH by simp
  also have "\<dots> \<longleftrightarrow> (\<exists>k\<le>length (d # n). fnmatch (drop k (d # n)) pat)"
  proof
    assume "fnmatch (drop 0 (d # n)) pat \<or> (\<exists>k\<le>length n. fnmatch (drop (Suc k) (d # n)) pat)"
    then show "\<exists>k\<le>length (d # n). fnmatch (drop k (d # n)) pat"
    proof
      assume "fnmatch (drop 0 (d # n)) pat"
      then show ?thesis by blast
    next
      assume "\<exists>k\<le>length n. fnmatch (drop (Suc k) (d # n)) pat"
      then obtain k where "k \<le> length n" "fnmatch (drop (Suc k) (d # n)) pat" by blast
      then have "Suc k \<le> length (d # n) \<and> fnmatch (drop (Suc k) (d # n)) pat" by simp
      then show ?thesis by blast
    qed
  next
    assume "\<exists>k\<le>length (d # n). fnmatch (drop k (d # n)) pat"
    then obtain k where k: "k \<le> length (d # n)" "fnmatch (drop k (d # n)) pat" by blast
    show "fnmatch (drop 0 (d # n)) pat \<or> (\<exists>k\<le>length n. fnmatch (drop (Suc k) (d # n)) pat)"
    proof (cases k)
      case 0
      then show ?thesis using k by simp
    next
      case (Suc j)
      then have "j \<le> length n \<and> fnmatch (drop (Suc j) (d # n)) pat" using k by simp
      then show ?thesis by blast
    qed
  qed
  finally show ?case .
qed

lemma suffix_drop_iff: "suffix s n \<longleftrightarrow> (\<exists>k\<le>length n. drop k n = s)"
proof
  assume "suffix s n"
  then obtain zs where "n = zs @ s" by (auto simp: suffix_def)
  then have "length zs \<le> length n \<and> drop (length zs) n = s" by simp
  then show "\<exists>k\<le>length n. drop k n = s" by blast
next
  assume "\<exists>k\<le>length n. drop k n = s"
  then show "suffix s n" using suffix_drop by blast
qed

lemma fnmatch_star_literal:
  assumes "literal ext"
  shows "fnmatch n (CHR ''*'' # ext) \<longleftrightarrow> suffix ext n"
proof -
  have "list_all (\<lambda>c. c \<noteq> CHR ''*'' \<and> c \<noteq> CHR ''?'') ext"
    using assms by (auto simp: literal_def list_all_iff)
  then have "\<And>m. fnmatch m ext \<longleftrightarrow> m = ext"
    by (rule fnmatch_literal)
  then show ?thesis
    unfolding fnmatch_star suffix_drop_iff by simp
qed

lemma upper_char_cases: "upper_char c = c \<or> upper_char c \<in> set ''ABCDEFGHIJKLMNOPQRSTUVWXYZ''"
proof (cases "map_of (zip ''abcdefghijklmnopqrstuvwxyz'' ''ABCDEFGHIJKLMNOPQRSTUVWXYZ'') c")
  case None
  then show ?thesis by (simp add: upper_char_def)
next
  case (Some d)
  then have "(c, d) \<in> set (zip ''abcdefghijklmnopqrstuvwxyz'' ''ABCDEFGHIJKLMNOPQRSTUVWXYZ'')"
    by (rule map_of_SomeD)
  then have "d \<in> set ''ABCDEFGHIJKLMNOPQRSTUVWXYZ''"
    by (rule set_zip_rightD)
  then show ?thesis using Some by (simp add: upper_char_def)
qed

lemma literal_upper: "literal ext \<Longrightarrow> literal (upper ext)"
proof -
  have "upper_char c \<notin> set ''*?[/''" if "c \<notin> set ''*?[/''" for c
    using upper_char_cases[of c] that by auto
  then show "literal ext \<Longrightarrow> literal (upper ext)"
    by (auto simp: literal_def upper_def list_all_iff)
qed

lemma extend_all_concat:
  assumes "\<And>s. s \<in> set (spellings exts) \<Longrightarrow> g (CHR ''*'' # s) = Inr (h s)"
  shows "extend_all g exts acc = Inr (acc @ concat (map h (spellings exts)))"
  using assms by (induction exts arbitrary: acc) (simp_all add: spellings_def)

lemma no_double_star: "CHR ''*'' \<notin> set s \<Longrightarrow> \<not> has_double_star s"
  by (induction s rule: has_double_star.induct) auto

lemma literal_pattern:
  assumes "literal s"
  shows "CHR ''*'' # s \<noteq> ''**''" "\<not> has_double_star (CHR ''*'' # s)"
proof -
  have n: "CHR ''*'' \<notin> set s"
    using assms by (auto simp: literal_def list_all_iff)
  then show "CHR ''*'' # s \<noteq> ''**''" by auto
  show "\<not> has_double_star (CHR ''*'' # s)"
    using n no_double_star[of s] by (cases s) auto
qed

lemma literal_spellings:
  "list_all literal exts \<Longrightarrow> s \<in> set (spellings exts) \<Longrightarrow> literal s"
  by (auto simp: spellings_def list_all_iff literal_upper)

lemma discover_suffix:
  assumes "list_all literal exts" "is_dir fs dir"
  shows "discover fs dir recursive exts =
     Inr (concat (map (\<lambda>s. filter (\<lambda>p. below dir recursive p \<and> suffix s (name p)) (map fst fs))
                      (spellings exts)))"
proof -
  have g: "glob fs dir (CHR ''*'' # s) =
             Inr (filter (\<lambda>p. below dir False p \<and> suffix s (name p)) (map fst fs))"
    and r: "rglob fs dir (CHR ''*'' # s) =
             Inr (filter (\<lambda>p. below dir True p \<and> suffix s (name p)) (map fst fs))"
    if "s \<in> set (spellings exts)" for s
  proof -
    have l: "literal s" using literal_spellings[OF assms(1) that] .
    have m: "\<And>n. fnmatch n (CHR ''*'' # s) \<longleftrightarrow> suffix s n"
      using fnmatch_star_literal[OF l] .
    show "glob fs dir (CHR ''*'' # s) =
             Inr (filter (\<lambda>p. below dir False p \<and> suffix s (name p)) (map fst fs))"
      unfolding glob_def m below_def using literal_pattern[OF l] assms(2) by simp
    show "rglob fs dir (CHR ''*'' # s) =
             Inr (filter (\<lambda>p. below dir True p \<and> suffix s (name p)) (map fst fs))"
      unfolding rglob_def m below_def using literal_pattern[OF l] assms(2) by simp
  qed
  show ?thesis
  proof (cases recursive)
    case True
    then show ?thesis
      using extend_all_concat[of exts "rglob fs dir"
          "\<lambda>s. filter (\<lambda>p. below dir True p \<and> suffix s (name p)) (map fst fs)" "[]", OF r]
      by (simp add: discover_def)
  next
    case False
    then show ?thesis
      using extend_all_concat[of exts "glob fs dir"
          "\<lambda>s. filter (\<lambda>p. below dir False p \<and> suffix s (name p)) (map fst fs)" "[]", OF g]
      by (simp add: discover_def)
  qed
qed

lemma distinct_concat_filter:
  assumes "distinct ps" "no_overlap ss"
  shows "distinct (concat (map (\<lambda>s. filter (\<lambda>p. B p \<and> suffix s (name p)) ps) ss))"
  using assms(2)
proof (induction ss)
  case Nil
  then show ?case by simp
next
  case (Cons s ss)
  have "\<not> (suffix s (name p) \<and> suffix t (name p))" if "t \<in> set ss" for t p
  proof
    assume "suffix s (name p) \<and> suffix t (name p)"
    then have "suffix s t \<or> suffix t s" using suffix_same_cases by blast
    then show False using Cons.prems that by (auto simp: list_all_iff)
  qed
  then have "set (filter (\<lambda>p. B p \<and> suffix s (name p)) ps) \<inter>
        set (concat (map (\<lambda>s. filter (\<lambda>p. B p \<and> suffix s (name p)) ps) ss)) = {}"
    by auto
  then show ?case
    using Cons assms(1) by simp
qed

text \<open>
  C10 (amended). For extensions without metacharacters, searched in a directory of a file
  system whose entries have distinct paths, the search returns a sequence: an entry is in
  it if and only if it is below the directory (directly in it when the search is not
  recursive) and its name ends with one of the extensions as given or with the upper case
  of one of them. When none of these spellings is the end of another, every discovered
  entry is in the sequence exactly once.
\<close>

theorem discover_spelling:
  assumes "list_all literal file_extensions" and "is_dir fs input_path"
    and "distinct (map fst fs)"
  shows "\<exists>image_files.
           discover fs input_path recursive file_extensions = Inr image_files \<and>
           (p \<in> set image_files \<longleftrightarrow>
              p \<in> set (map fst fs) \<and> below input_path recursive p \<and>
              (\<exists>ext\<in>set file_extensions. suffix ext (name p) \<or> suffix (upper ext) (name p))) \<and>
           (no_overlap (spellings file_extensions) \<longrightarrow> distinct image_files)"
proof -
  define image_files where "image_files =
    concat (map (\<lambda>s. filter (\<lambda>p. below input_path recursive p \<and> suffix s (name p)) (map fst fs))
                (spellings file_extensions))"
  have d: "discover fs input_path recursive file_extensions = Inr image_files"
    unfolding image_files_def by (rule discover_suffix[OF assms(1,2)])
  have "p \<in> set image_files \<longleftrightarrow>
            p \<in> set (map fst fs) \<and> below input_path recursive p \<and>
            (\<exists>ext\<in>set file_extensions. suffix ext (name p) \<or> suffix (upper ext) (name p))"
    unfolding image_files_def by (auto simp: spellings_def)
  moreover have "distinct image_files" if "no_overlap (spellings file_extensions)"
    unfolding image_files_def using distinct_concat_filter[OF assms(3) that] .
  ultimately show ?thesis using d by blast
qed

theorem discover_spelling_witness:
  "list_all literal [''.jpg'', ''.jpeg''] \<and> is_dir example_fs [''in''] \<and>
   distinct (map fst example_fs) \<and> no_overlap (spellings [''.jpg'', ''.jpeg'']) \<and>
   (\<exists>image_files.
      discover example_fs [''in''] True [''.jpg'', ''.jpeg''] = Inr image_files \<and>
      [''in'', ''b.JPG''] \<in> set image_files \<and> distinct image_files)"
proof -
  have l: "list_all literal [''.jpg'', ''.jpeg'']" by code_simp
  have i: "is_dir example_fs [''in'']" by code_simp
  have d: "distinct (map fst example_fs)" by code_simp
  have n: "no_overlap (spellings [''.jpg'', ''.jpeg''])" by code_simp
  have m: "[''in'', ''b.JPG''] \<in> set (map fst example_fs) \<and>
           below [''in''] True [''in'', ''b.JPG''] \<and>
           (\<exists>ext\<in>set [''.jpg'', ''.jpeg''].
              suffix ext (name [''in'', ''b.JPG'']) \<or> suffix (upper ext) (name [''in'', ''b.JPG'']))"
    by code_simp
  show ?thesis
    using l i d n m
      discover_spelling[OF l i d, where p = "[''in'', ''b.JPG'']" and recursive = True]
    by blast
qed

text \<open>
  C10 as stated fails. The name \<open>c.Jpg\<close> ends with \<open>.jpg\<close> up to letter case and is not
  discovered for the extension \<open>.jpg\<close>: only \<open>.jpg\<close> and \<open>.JPG\<close> are searched. And for
  the extension \<open>.JPG\<close>, which is its own upper case, \<open>b.JPG\<close> is discovered twice.
\<close>

theorem discover_case_insensitive_counterexample:
  "[''in'', ''c.Jpg''] \<in> set (map fst example_fs) \<and>
   strict_prefix [''in''] [''in'', ''c.Jpg''] \<and>
   suffix (lower ''.jpg'') (lower (name [''in'', ''c.Jpg''])) \<and>
   discover example_fs [''in''] True [''.jpg'', ''.jpeg''] =
     Inr [[''in'', ''a.jpg''], [''in'', ''b.JPG''], [''in'', ''sub'', ''d.jpeg'']] \<and>
   [''in'', ''c.Jpg''] \<notin>
     set [[''in'', ''a.jpg''], [''in'', ''b.JPG''], [''in'', ''sub'', ''d.jpeg'']] \<and>
   suffix ''.JPG'' (name [''in'', ''b.JPG'']) \<and>
   discover example_fs [''in''] True [''.JPG''] = Inr [[''in'', ''b.JPG''], [''in'', ''b.JPG'']] \<and>
   count_list [[''in'', ''b.JPG''], [''in'', ''b.JPG'']] [''in'', ''b.JPG''] = 2"
  by code_simp

end
